theory Spec2Isabelle
  imports Complex_Main "HOL-Library.AList" "HOL-Library.Sublist"
begin

section \<open>GTIN validation pipeline: the embedding\<close>

text \<open>
  The program is one Python script, \<^verbatim>\<open>GTIN_Validation_v2.py\<close>. Its core (lines 45-59 and
  68-133) partitions the identifiers of every uploaded file into batches of ten, posts each
  batch to the registry with retries, normalises the answers into a table of five columns and
  concatenates the tables per file and over all files.

  Everything the script does beyond computing values is explicit here: an uncaught Python
  exception is the \<open>Inl\<close> branch of a sum, the remote service is a function from the number
  of the request and the request body to the outcome of \<^verbatim>\<open>requests.post\<close>, and the calls of
  \<^verbatim>\<open>time.sleep\<close>, \<^verbatim>\<open>st.warning\<close>, \<^verbatim>\<open>st.error\<close> and \<^verbatim>\<open>st.success\<close> are logged in the state.
\<close>

subsection \<open>Exceptions\<close>

text \<open>
  The Python exceptions that can leave the functions below. \<open>Unsupported\<close> marks the one
  input shape of \<^verbatim>\<open>pd.json_normalize\<close> (a list whose rows are themselves lists) that
  the model of pandas does not cover.
\<close>

datatype error =
  ValueError | TypeError | KeyError | JSONDecodeError | NotImplementedError | Unsupported

subsection \<open>Lines 45-47: \<^verbatim>\<open>chunk_list\<close>\<close>

text \<open>
  \<^verbatim>\<open>for i in range(0, len(lst), n): yield lst[i:i + n]\<close>. The index \<open>i\<close> runs over
  \<open>0, n, 2n, ...\<close> while it is below \<open>len(lst)\<close>; the slice \<^verbatim>\<open>lst[i:i + n]\<close> is clipped at
  the end of the list. \<^verbatim>\<open>range\<close> raises \<open>ValueError\<close> for a step of zero and is empty for
  a negative step.
\<close>

function chunks_from :: "'a list \<Rightarrow> nat \<Rightarrow> nat \<Rightarrow> 'a list list" where
  "chunks_from lst n i =
     (if 0 < n \<and> i < length lst
      then take n (drop i lst) # chunks_from lst n (i + n)
      else [])"
  by pat_completeness auto
termination
  by (relation "measure (\<lambda>(lst, n, i). length lst - i)") auto

declare chunks_from.simps [simp del]

definition chunk_list :: "'a list \<Rightarrow> int \<Rightarrow> error + 'a list list" where
  "chunk_list lst n =
     (if n = 0 then Inl ValueError
      else if n < 0 then Inr []
      else Inr (chunks_from lst (nat n) 0))"

subsection \<open>JSON values and the Python operators applied to them\<close>

text \<open>
  What \<^verbatim>\<open>response.json()\<close> returns: \<^verbatim>\<open>None\<close>, a bool, a number, a string, a list or a
  dict. A dict is an association list in insertion order. Numbers are integers here; the
  script never computes with a number of the payload.
\<close>

datatype json =
  JNull | JBool bool | JNum int | JStr string | JArr "json list" | JObj "(string \<times> json) list"

text \<open>
  \<^verbatim>\<open>'products' in data\<close> (line 108): key membership for a dict, element membership for a
  list, substring test for a string, \<open>TypeError\<close> for anything else.
\<close>

fun py_in :: "string \<Rightarrow> json \<Rightarrow> error + bool" where
  "py_in k (JObj kvs) = Inr (k \<in> set (map fst kvs))"
| "py_in k (JArr xs) = Inr (JStr k \<in> set xs)"
| "py_in k (JStr s) = Inr (sublist k s)"
| "py_in k JNull = Inl TypeError"
| "py_in k (JBool b) = Inl TypeError"
| "py_in k (JNum i) = Inl TypeError"

text \<open>\<^verbatim>\<open>data['products']\<close> (line 109): only a dict can be indexed by a string.\<close>

fun py_getitem :: "json \<Rightarrow> string \<Rightarrow> error + json" where
  "py_getitem (JObj kvs) k = (case map_of kvs k of None \<Rightarrow> Inl KeyError | Some v \<Rightarrow> Inr v)"
| "py_getitem (JArr xs) k = Inl TypeError"
| "py_getitem (JStr s) k = Inl TypeError"
| "py_getitem JNull k = Inl TypeError"
| "py_getitem (JBool b) k = Inl TypeError"
| "py_getitem (JNum i) k = Inl TypeError"

subsection \<open>Tables\<close>

text \<open>
  A cell of a result table: a value of the payload, the \<open>NaN\<close> that the \<^verbatim>\<open>DataFrame\<close>
  constructor puts where a row has no value for a column, or the \<^verbatim>\<open>pd.NA\<close> that line 112
  assigns. The last two are the missing-value markers.
\<close>

datatype cell = NaN | NA | Val json

text \<open>A \<^verbatim>\<open>DataFrame\<close>: the column labels in order, and the rows, each aligned with them.\<close>

record frame =
  columns :: "string list"
  rows :: "cell list list"

definition aligned :: "frame \<Rightarrow> bool" where
  "aligned f = (list_all (\<lambda>r. length r = length (columns f)) (rows f))"

definition cell_at :: "string list \<Rightarrow> cell list \<Rightarrow> string \<Rightarrow> cell" where
  "cell_at cs r c = (case map_of (zip cs r) c of Some v \<Rightarrow> v | None \<Rightarrow> NaN)"

text \<open>The labels of a list in order of first appearance.\<close>

definition first_seen :: "'a list \<Rightarrow> 'a list" where
  "first_seen xs = rev (remdups (rev xs))"

text \<open>
  \<^verbatim>\<open>DataFrame(list_of_dicts)\<close>: the columns are the keys in order of first appearance, a
  row has \<open>NaN\<close> where its dict has no such key.
\<close>

definition DataFrame :: "(string \<times> json) list list \<Rightarrow> frame" where
  "DataFrame ds =
     (let cs = first_seen (concat (map (map fst) ds))
      in \<lparr>columns = cs,
          rows = map (\<lambda>d. map (\<lambda>c. case map_of d c of Some v \<Rightarrow> Val v | None \<Rightarrow> NaN) cs) ds\<rparr>)"

text \<open>
  \<^verbatim>\<open>pd.json_normalize\<close> with default arguments. A dict is flattened: the top-level
  values that are not dicts come first, then the leaves of the nested dicts under their
  dotted paths (\<^verbatim>\<open>_normalise_json_ordered\<close>, \<^verbatim>\<open>_normalise_json\<close>). A row that is neither a
  dict nor a list becomes the empty dict.
\<close>

definition new_key :: "string \<Rightarrow> string \<Rightarrow> string" where
  "new_key key_string key = (if key_string = [] then key else key_string @ ''.'' @ key)"

fun normalise_json :: "json \<Rightarrow> string \<Rightarrow> (string \<times> json) list \<Rightarrow> (string \<times> json) list" where
  "normalise_json (JObj kvs) key_string normalized_dict =
     fold (\<lambda>p nd. normalise_json (snd p) (new_key key_string (fst p)) nd) kvs normalized_dict"
| "normalise_json JNull key_string normalized_dict = AList.update key_string JNull normalized_dict"
| "normalise_json (JBool b) key_string normalized_dict =
     AList.update key_string (JBool b) normalized_dict"
| "normalise_json (JNum i) key_string normalized_dict =
     AList.update key_string (JNum i) normalized_dict"
| "normalise_json (JStr s) key_string normalized_dict =
     AList.update key_string (JStr s) normalized_dict"
| "normalise_json (JArr xs) key_string normalized_dict =
     AList.update key_string (JArr xs) normalized_dict"

fun is_dict :: "json \<Rightarrow> bool" where
  "is_dict (JObj kvs) = True"
| "is_dict JNull = False"
| "is_dict (JBool b) = False"
| "is_dict (JNum i) = False"
| "is_dict (JStr s) = False"
| "is_dict (JArr xs) = False"

definition normalise_json_ordered :: "(string \<times> json) list \<Rightarrow> (string \<times> json) list" where
  "normalise_json_ordered d =
     (let top_dict = filter (\<lambda>p. \<not> is_dict (snd p)) d;
          nested_dict = normalise_json (JObj (filter (\<lambda>p. is_dict (snd p)) d)) [] []
      in fold (\<lambda>p acc. AList.update (fst p) (snd p) acc) nested_dict top_dict)"

fun simple_json_normalize :: "json \<Rightarrow> error + (string \<times> json) list" where
  "simple_json_normalize (JObj d) = Inr (normalise_json_ordered d)"
| "simple_json_normalize (JArr xs) = Inl Unsupported"
| "simple_json_normalize JNull = Inr []"
| "simple_json_normalize (JBool b) = Inr []"
| "simple_json_normalize (JNum i) = Inr []"
| "simple_json_normalize (JStr s) = Inr []"

fun collect :: "(error + 'a) list \<Rightarrow> error + 'a list" where
  "collect [] = Inr []"
| "collect (Inl e # xs) = Inl e"
| "collect (Inr y # xs) = (case collect xs of Inl e \<Rightarrow> Inl e | Inr ys \<Rightarrow> Inr (y # ys))"

text \<open>
  The dicts from which \<^verbatim>\<open>json_normalize\<close> builds the frame: a dict counts as a list of
  one, a list is normalised row by row, anything else raises \<open>NotImplementedError\<close>.
  The empty list gives the frame without rows and columns.
\<close>

fun normalized_dicts :: "json \<Rightarrow> error + (string \<times> json) list list" where
  "normalized_dicts (JArr xs) = collect (map simple_json_normalize xs)"
| "normalized_dicts (JObj d) = Inr [normalise_json_ordered d]"
| "normalized_dicts JNull = Inl NotImplementedError"
| "normalized_dicts (JBool b) = Inl NotImplementedError"
| "normalized_dicts (JNum i) = Inl NotImplementedError"
| "normalized_dicts (JStr s) = Inl NotImplementedError"

definition json_normalize :: "json \<Rightarrow> error + frame" where
  "json_normalize data =
     (case normalized_dicts data of Inl e \<Rightarrow> Inl e | Inr ds \<Rightarrow> Inr (DataFrame ds))"

text \<open>Line 42.\<close>

definition COLUMNS_OF_INTEREST :: "string list" where
  "COLUMNS_OF_INTEREST =
     [''gtin'', ''gs1Licence.licenseeName'', ''gs1Licence.licenceKey'',
      ''gs1Licence.licenseeGLN'', ''validationErrors'']"

text \<open>
  Lines 110-112: \<^verbatim>\<open>if col not in products_data.columns: products_data[col] = pd.NA\<close>
  appends a column that holds \<^verbatim>\<open>pd.NA\<close> in every row.
\<close>

definition ensure_column :: "string \<Rightarrow> frame \<Rightarrow> frame" where
  "ensure_column col f =
     (if col \<in> set (columns f) then f
      else \<lparr>columns = columns f @ [col], rows = map (\<lambda>r. r @ [NA]) (rows f)\<rparr>)"

definition fill_missing :: "frame \<Rightarrow> frame" where
  "fill_missing f = fold ensure_column COLUMNS_OF_INTEREST f"

text \<open>
  Line 113: \<^verbatim>\<open>products_data[COLUMNS_OF_INTEREST]\<close> selects the listed columns in the listed
  order and raises \<open>KeyError\<close> when one of them is not a column.
\<close>

definition select_columns :: "string list \<Rightarrow> frame \<Rightarrow> error + frame" where
  "select_columns cs f =
     (if set cs \<subseteq> set (columns f)
      then Inr \<lparr>columns = cs, rows = map (\<lambda>r. map (cell_at (columns f) r) cs) (rows f)\<rparr>
      else Inl KeyError)"

text \<open>
  \<^verbatim>\<open>pd.concat(frames, ignore_index=True)\<close>: \<open>ValueError\<close> for no frames; otherwise the
  columns are the union of the frames' columns in order of first appearance and the rows
  follow each other, with \<open>NaN\<close> where a frame lacks a column.
\<close>

definition pd_concat :: "frame list \<Rightarrow> error + frame" where
  "pd_concat fs =
     (if fs = [] then Inl ValueError
      else let cs = first_seen (concat (map columns fs))
           in Inr \<lparr>columns = cs,
                   rows = concat (map (\<lambda>f. map (\<lambda>r. map (cell_at (columns f) r) cs) (rows f)) fs)\<rparr>)"

text \<open>The fixed schema: the five columns of line 42 in their order, five cells in every row.\<close>

definition schema_ok :: "frame \<Rightarrow> bool" where
  "schema_ok t = (columns t = COLUMNS_OF_INTEREST \<and> list_all (\<lambda>r. length r = 5) (rows t))"

subsection \<open>Lines 49-59: \<^verbatim>\<open>post_with_retry\<close>\<close>

text \<open>
  A response carries its status code and its body, which either parses as JSON or does
  not. \<^verbatim>\<open>response.json()\<close> raises for a body that does not parse; the truth value of a
  response is \<^verbatim>\<open>response.ok\<close>, false exactly for the statuses 400 to 599.
\<close>

datatype body = NotJson | Json json

record response =
  status_code :: int
  content :: body

definition response_json :: "response \<Rightarrow> error + json" where
  "response_json r = (case content r of NotJson \<Rightarrow> Inl JSONDecodeError | Json j \<Rightarrow> Inr j)"

definition response_ok :: "response \<Rightarrow> bool" where
  "response_ok r = (\<not> (400 \<le> status_code r \<and> status_code r < 600))"

text \<open>
  One call of \<^verbatim>\<open>requests.post\<close> either returns a response or raises a
  \<^verbatim>\<open>RequestException\<close>. The remote side is a function of the number of calls made before
  and of the body sent.
\<close>

datatype outcome = Responded response | RequestException

type_synonym remote = "nat \<Rightarrow> string list \<Rightarrow> outcome"

record world =
  posts :: nat
  sleeps :: "nat list"

definition posted :: "world \<Rightarrow> world" where
  "posted w = w\<lparr>posts := Suc (posts w)\<rparr>"

definition sleep :: "nat \<Rightarrow> world \<Rightarrow> world" where
  "sleep t w = w\<lparr>sleeps := sleeps w @ [t]\<rparr>"

function post_attempts ::
  "remote \<Rightarrow> string list \<Rightarrow> int \<Rightarrow> nat \<Rightarrow> world \<Rightarrow> response option \<times> world" where
  "post_attempts R data max_retries attempt w =
     (if int attempt < max_retries then
        (case R (posts w) data of
           Responded r \<Rightarrow>
             if status_code r = 503
             then post_attempts R data max_retries (Suc attempt) (sleep (2 ^ attempt) (posted w))
             else (Some r, posted w)
         | RequestException \<Rightarrow>
             post_attempts R data max_retries (Suc attempt) (sleep (2 ^ attempt) (posted w)))
      else (None, w))"
  by pat_completeness auto
termination
  by (relation "measure (\<lambda>(R, data, max_retries, attempt, w). nat (max_retries - int attempt))")
     auto

declare post_attempts.simps [simp del]

definition post_with_retry ::
  "remote \<Rightarrow> string list \<Rightarrow> int \<Rightarrow> world \<Rightarrow> response option \<times> world" where
  "post_with_retry R data max_retries w = post_attempts R data max_retries 0 w"

definition transient :: "outcome \<Rightarrow> bool" where
  "transient out =
     (case out of Responded r \<Rightarrow> status_code r = 503 | RequestException \<Rightarrow> True)"

definition backoff :: "nat \<Rightarrow> nat list" where
  "backoff j = map (\<lambda>i. 2 ^ i) [0..<j]"

subsection \<open>Lines 104-113: one batch\<close>

definition handle_payload :: "json \<Rightarrow> frame list \<Rightarrow> error + frame list" where
  "handle_payload data results_df =
     (case py_in ''products'' data of
        Inl e \<Rightarrow> Inl e
      | Inr False \<Rightarrow> Inr results_df
      | Inr True \<Rightarrow>
          (case py_getitem data ''products'' of
             Inl e \<Rightarrow> Inl e
           | Inr p \<Rightarrow>
               (case json_normalize p of
                  Inl e \<Rightarrow> Inl e
                | Inr products_data \<Rightarrow>
                    (case select_columns COLUMNS_OF_INTEREST (fill_missing products_data) of
                       Inl e \<Rightarrow> Inl e
                     | Inr t \<Rightarrow> Inr (results_df @ [t])))))"

definition handle_response ::
  "response option \<Rightarrow> frame list \<Rightarrow> error + frame list" where
  "handle_response response results_df =
     (case response of
        None \<Rightarrow> Inr results_df
      | Some r \<Rightarrow>
          if response_ok r \<and> status_code r = 200
          then (case response_json r of
                  Inl e \<Rightarrow> Inl e
                | Inr data \<Rightarrow> handle_payload data results_df)
          else Inr results_df)"

definition process_chunk ::
  "remote \<Rightarrow> string list \<Rightarrow> frame list \<Rightarrow> world \<Rightarrow> error + frame list \<times> world" where
  "process_chunk R chunk results_df w =
     (case post_with_retry R chunk 5 w of
        (response, w') \<Rightarrow>
          (case handle_response response results_df of
             Inl e \<Rightarrow> Inl e
           | Inr results_df' \<Rightarrow> Inr (results_df', w')))"

fun batch_loop ::
  "remote \<Rightarrow> string list list \<Rightarrow> frame list \<Rightarrow> world \<Rightarrow> error + frame list \<times> world" where
  "batch_loop R [] results_df w = Inr (results_df, w)"
| "batch_loop R (chunk # rest) results_df w =
     (case process_chunk R chunk results_df w of
        Inl e \<Rightarrow> Inl e
      | Inr (results_df', w') \<Rightarrow> batch_loop R rest results_df' w')"

subsection \<open>Lines 75-98: reading a file and extracting the identifiers\<close>

text \<open>
  An uploaded file has a name and, when the reader of line 83 accepts it, a header and
  rows of field texts; \<open>None\<close> stands for a file on which the reader raises (lines
  84-86). The reader is called with \<^verbatim>\<open>dtype=str\<close> and otherwise default arguments, so a
  field whose text is one of the default NA strings (the empty text among them) is read
  as \<open>NaN\<close> and every other field as the string itself. The header holds the labels as
  the reader returns them: texts, made distinct by the reader.
\<close>

record upload =
  name :: string
  parsed :: "(string list \<times> string list list) option"

record sheet =
  sheet_columns :: "string list"
  sheet_rows :: "string option list list"

definition na_values :: "string list" where
  "na_values =
     ['''', ''#N/A'', ''#N/A N/A'', ''#NA'', ''-1.#IND'', ''-1.#QNAN'', ''-NaN'', ''-nan'',
      ''1.#IND'', ''1.#QNAN'', ''<NA>'', ''N/A'', ''NA'', ''NULL'', ''NaN'', ''None'', ''n/a'',
      ''nan'', ''null'']"

definition na_filter :: "string \<Rightarrow> string option" where
  "na_filter s = (if s \<in> set na_values then None else Some s)"

definition read_table :: "upload \<Rightarrow> sheet option" where
  "read_table f =
     (case parsed f of
        None \<Rightarrow> None
      | Some (header, lines) \<Rightarrow>
          Some \<lparr>sheet_columns = header, sheet_rows = map (map na_filter) lines\<rparr>)"

text \<open>\<^verbatim>\<open>str.lower\<close>, on the ASCII letters.\<close>

definition lower_char :: "char \<Rightarrow> char" where
  "lower_char c =
     (case map_of (zip ''ABCDEFGHIJKLMNOPQRSTUVWXYZ'' ''abcdefghijklmnopqrstuvwxyz'') c of
        Some d \<Rightarrow> d
      | None \<Rightarrow> c)"

definition lower :: "string \<Rightarrow> string" where
  "lower s = map lower_char s"

text \<open>Line 89: \<^verbatim>\<open>{col.lower(): col for col in df.columns}\<close>.\<close>

definition normalized_cols :: "string list \<Rightarrow> (string \<times> string) list" where
  "normalized_cols cs = fold (\<lambda>col d. AList.update (lower col) col d) cs []"

text \<open>
  Line 95: \<^verbatim>\<open>df[gtin_col].dropna().astype(str).tolist()\<close>. The column is read at the
  position of its label; a row that is too short has \<open>NaN\<close> there.
\<close>

fun position :: "'a \<Rightarrow> 'a list \<Rightarrow> nat" where
  "position c [] = 0"
| "position c (x # xs) = (if x = c then 0 else Suc (position c xs))"

definition column_values :: "sheet \<Rightarrow> string \<Rightarrow> string option list" where
  "column_values df col =
     map (\<lambda>r. let i = position col (sheet_columns df) in if i < length r then r ! i else None)
         (sheet_rows df)"

fun dropna :: "string option list \<Rightarrow> string list" where
  "dropna [] = []"
| "dropna (None # xs) = dropna xs"
| "dropna (Some s # xs) = s # dropna xs"

subsection \<open>Lines 68-133: the run\<close>

text \<open>
  The messages of \<^verbatim>\<open>st.warning\<close> (lines 85, 91, 97, 124), \<^verbatim>\<open>st.error\<close> (line 133) and
  \<^verbatim>\<open>st.success\<close> (line 131), with the file name they mention.
\<close>

datatype notice =
  CouldNotRead string | NoGtinColumn string | NoGtinsFound string | NoValidResults string
| NoDataProcessed | AllFilesProcessed

record run_state =
  all_data :: "frame list"
  individual_results :: "(string \<times> frame) list"
  notices :: "notice list"
  net :: world

definition warn :: "notice \<Rightarrow> run_state \<Rightarrow> run_state" where
  "warn m st = st\<lparr>notices := notices st @ [m]\<rparr>"

text \<open>
  Lines 82-98, for one file: either the warning with which the file is skipped, or its
  identifiers. The column is the one whose lower-cased label is \<open>gtin\<close>.
\<close>

definition identifiers :: "upload \<Rightarrow> notice + string list" where
  "identifiers uploaded_file =
     (case read_table uploaded_file of
        None \<Rightarrow> Inl (CouldNotRead (name uploaded_file))
      | Some df \<Rightarrow>
          (case map_of (normalized_cols (sheet_columns df)) ''gtin'' of
             None \<Rightarrow> Inl (NoGtinColumn (name uploaded_file))
           | Some gtin_col \<Rightarrow>
               (let gtins = dropna (column_values df gtin_col) in
                if gtins = [] then Inl (NoGtinsFound (name uploaded_file)) else Inr gtins)))"

text \<open>
  Lines 75-124, for one file. A skipped file leaves a warning and nothing else. Otherwise
  the batches of ten are sent one after the other; when at least one batch gave a
  table, their concatenation is appended to \<open>all_data\<close> and stored in
  \<open>individual_results\<close> under the file name (a dict assignment: an entry with this name
  is overwritten).
\<close>

definition process_file :: "remote \<Rightarrow> upload \<Rightarrow> run_state \<Rightarrow> error + run_state" where
  "process_file R uploaded_file st =
     (case identifiers uploaded_file of
        Inl skipped \<Rightarrow> Inr (warn skipped st)
      | Inr gtins \<Rightarrow>
          (case chunk_list gtins 10 of
             Inl e \<Rightarrow> Inl e
           | Inr chunks \<Rightarrow>
               (case batch_loop R chunks [] (net st) of
                  Inl e \<Rightarrow> Inl e
                | Inr (results_df, w) \<Rightarrow>
                    if results_df \<noteq> [] then
                      (case pd_concat results_df of
                         Inl e \<Rightarrow> Inl e
                       | Inr final_result \<Rightarrow>
                           Inr (st\<lparr>all_data := all_data st @ [final_result],
                                   individual_results :=
                                     AList.update (name uploaded_file) final_result
                                       (individual_results st),
                                   net := w\<rparr>))
                    else Inr (warn (NoValidResults (name uploaded_file)) (st\<lparr>net := w\<rparr>)))))"

fun process_files :: "remote \<Rightarrow> upload list \<Rightarrow> run_state \<Rightarrow> error + run_state" where
  "process_files R [] st = Inr st"
| "process_files R (uploaded_file # rest) st =
     (case process_file R uploaded_file st of
        Inl e \<Rightarrow> Inl e
      | Inr st' \<Rightarrow> process_files R rest st')"

text \<open>
  The session keeps the combined table and the per-file tables of the last run that
  finalised (lines 128-129) and the usage log gets one entry per such run (line 130).
  The download section (line 136) is shown when both tables are in the session.
  The block of lines 68-133 runs only for a non-empty upload.

  Left out are the greeting (lines 13-26), the progress display (lines 77, 100-101 and
  115-117, whose division by \<^verbatim>\<open>len(gtins)\<close> is a division by a positive number) and the
  download widgets (lines 137-179); an I/O error of the log file is not modelled.
\<close>

record session =
  final_df :: "frame option"
  saved_results :: "(string \<times> frame) list option"
  usage_log :: "nat list"

definition initial_state :: run_state where
  "initial_state =
     \<lparr>all_data = [], individual_results = [], notices = [], net = \<lparr>posts = 0, sleeps = []\<rparr>\<rparr>"

definition main :: "remote \<Rightarrow> upload list \<Rightarrow> session \<Rightarrow> error + session \<times> run_state" where
  "main R uploaded_files sess =
     (if uploaded_files = [] then Inr (sess, initial_state)
      else
        (case process_files R uploaded_files initial_state of
           Inl e \<Rightarrow> Inl e
         | Inr st \<Rightarrow>
             if all_data st \<noteq> [] then
               (case pd_concat (all_data st) of
                  Inl e \<Rightarrow> Inl e
                | Inr combined_df \<Rightarrow>
                    Inr (sess\<lparr>final_df := Some combined_df,
                              saved_results := Some (individual_results st),
                              usage_log := usage_log sess @ [length uploaded_files]\<rparr>,
                         warn AllFilesProcessed st))
             else Inr (sess, warn NoDataProcessed st)))"


subsection \<open>Inputs of the scenarios\<close>

definition scenario2_remote :: remote where
  "scenario2_remote k d =
     (if k < 3 then Responded \<lparr>status_code = 503, content = NotJson\<rparr>
      else Responded \<lparr>status_code = 200,
             content = Json (JObj [(''products'', JArr [JObj [(''gtin'', JStr ''00012345678905'')]])])\<rparr>)"

definition fresh :: world where "fresh = \<lparr>posts = 0, sleeps = []\<rparr>"

definition scenario2_response :: response where
  "scenario2_response =
     \<lparr>status_code = 200,
      content = Json (JObj [(''products'', JArr [JObj [(''gtin'', JStr ''00012345678905'')]])])\<rparr>"

definition flaky_remote :: remote where
  "flaky_remote k d =
     (if k < 5 then (if even k then RequestException
                     else Responded \<lparr>status_code = 503, content = NotJson\<rparr>)
      else Responded scenario2_response)"

definition one_gtin_file :: "string \<Rightarrow> upload" where
  "one_gtin_file nm = \<lparr>name = nm, parsed = Some ([''GTIN''], [[''00012345678905'']])\<rparr>"

definition empty_session :: session where
  "empty_session = \<lparr>final_df = None, saved_results = None, usage_log = []\<rparr>"


definition no_products_response :: response where
  "no_products_response =
     \<lparr>status_code = 200, content = Json (JObj [(''message'', JStr ''no results'')])\<rparr>"

definition null_response :: response where
  "null_response = \<lparr>status_code = 200, content = Json JNull\<rparr>"

definition html_response :: response where
  "html_response = \<lparr>status_code = 200, content = NotJson\<rparr>"

definition null_remote :: remote where
  "null_remote k d = Responded null_response"

text \<open>
  Two views used in the proofs: a frame as the list of its rows, each a function from
  labels to cells, and a flattened product entry as such a function.
\<close>

definition view :: "frame \<Rightarrow> (string \<Rightarrow> cell) list" where
  "view f = map (\<lambda>r. cell_at (columns f) r) (rows f)"

definition entry_cell :: "(string \<times> json) list \<Rightarrow> string \<Rightarrow> cell" where
  "entry_cell d c = (case map_of d c of Some v \<Rightarrow> Val v | None \<Rightarrow> NaN)"

text \<open>Every table collected so far has the fixed schema.\<close>

definition tables_ok :: "run_state \<Rightarrow> bool" where
  "tables_ok st =
     (list_all schema_ok (all_data st) \<and> list_all schema_ok (map snd (individual_results st)))"




definition gtin_file :: "string \<Rightarrow> string list \<Rightarrow> upload" where
  "gtin_file nm gs = \<lparr>name = nm, parsed = Some ([''GTIN''], map (\<lambda>g. [g]) gs)\<rparr>"










definition full_entry :: json where
  "full_entry =
     JObj [(''gtin'', JStr ''00012345678905''),
           (''gs1Licence'', JObj [(''licenseeName'', JStr ''Acme''),
                                   (''licenceKey'', JStr ''0001234'')]),
           (''validationErrors'', JArr [])]"

definition bare_entry :: json where
  "bare_entry = JObj [(''gtin'', JStr ''00098765432109''), (''brand'', JStr ''none'')]"

definition mixed_payload :: json where
  "mixed_payload = JObj [(''products'', JArr [full_entry, bare_entry])]"

definition mixed_table :: frame where
  "mixed_table =
     \<lparr>columns = COLUMNS_OF_INTEREST,
      rows = [[Val (JStr ''00012345678905''), Val (JStr ''Acme''), Val (JStr ''0001234''), NA,
               Val (JArr [])],
              [Val (JStr ''00098765432109''), NaN, NaN, NA, NaN]]\<rparr>"

definition mixed_remote :: remote where
  "mixed_remote k d = Responded \<lparr>status_code = 200, content = Json mixed_payload\<rparr>"

definition mixed_state :: run_state where
  "mixed_state =
     \<lparr>all_data = [mixed_table], individual_results = [(''a.csv'', mixed_table)],
      notices = [AllFilesProcessed], net = \<lparr>posts = 1, sleeps = []\<rparr>\<rparr>"

definition no_products_remote :: remote where
  "no_products_remote k d = Responded no_products_response"

definition html_remote :: remote where
  "html_remote k d = Responded html_response"

section \<open>The Chunker\<close>

lemma chunks_from_concat: "0 < n \<Longrightarrow> concat (chunks_from lst n i) = drop i lst"
proof (induction lst n i rule: chunks_from.induct)
  case (1 lst n i)
  show ?case
  proof (cases "i < length lst")
    case True
    with 1 have "concat (chunks_from lst n (i + n)) = drop (i + n) lst" by simp
    moreover have "drop (i + n) lst = drop n (drop i lst)" by (simp add: add.commute)
    moreover have "chunks_from lst n i = take n (drop i lst) # chunks_from lst n (i + n)"
      using True 1(2) by (subst chunks_from.simps) simp
    ultimately have "concat (chunks_from lst n i) = take n (drop i lst) @ drop n (drop i lst)"
      by simp
    then show ?thesis by (simp only: append_take_drop_id)
  next
    case False
    then show ?thesis by (subst chunks_from.simps) simp
  qed
qed

lemma div_between:
  fixes m N q :: nat
  shows "q * N \<le> m \<Longrightarrow> m < q * N + N \<Longrightarrow> m div N = q"
  by (intro div_nat_eqI) (simp_all add: mult.commute)

lemma chunks_from_length:
  "0 < n \<Longrightarrow> length (chunks_from lst n i) = (length lst - i + n - 1) div n"
proof (induction lst n i rule: chunks_from.induct)
  case (1 lst n i)
  show ?case
  proof (cases "i < length lst")
    case True
    with 1 have ih: "length (chunks_from lst n (i + n)) = (length lst - (i + n) + n - 1) div n"
      by simp
    have unf: "length (chunks_from lst n i) = Suc (length (chunks_from lst n (i + n)))"
      using True 1(2) by (subst chunks_from.simps) simp
    show ?thesis
    proof (cases "i + n \<le> length lst")
      case True
      define m where "m = length lst - (i + n) + n - 1"
      have "length lst - i + n - 1 = m + n" using True 1(2) by (simp add: m_def)
      moreover have "(m + n) div n = Suc (m div n)" using 1(2) by simp
      ultimately show ?thesis using unf ih by (simp only: m_def)
    next
      case False
      then have a: "length lst - (i + n) + n - 1 = n - 1" by simp
      have b: "n \<le> length lst - i + n - 1" "length lst - i + n - 1 < 2 * n"
        using False True by simp_all
      have "(length lst - i + n - 1) div n = 1"
        using b by (intro div_between) simp_all
      then show ?thesis using unf ih a 1(2) by simp
    qed
  next
    case False
    then have "length lst - i + n - 1 < n" using 1(2) by simp
    then show ?thesis using False by (subst chunks_from.simps) simp
  qed
qed

lemma chunks_from_nth:
  "0 < n \<Longrightarrow> j < length (chunks_from lst n i) \<Longrightarrow>
     chunks_from lst n i ! j = take n (drop (i + j * n) lst)"
proof (induction lst n i arbitrary: j rule: chunks_from.induct)
  case (1 lst n i)
  show ?case
  proof (cases "i < length lst")
    case True
    then have unf: "chunks_from lst n i = take n (drop i lst) # chunks_from lst n (i + n)"
      using 1(2) by (subst chunks_from.simps) simp
    show ?thesis
    proof (cases j)
      case 0
      then show ?thesis using unf by simp
    next
      case (Suc k)
      then have "k < length (chunks_from lst n (i + n))" using 1(3) unf by simp
      then have "chunks_from lst n (i + n) ! k = take n (drop (i + n + k * n) lst)"
        using 1(1)[of k] True 1(2) by simp
      then show ?thesis using unf Suc by (simp add: add.assoc add.commute)
    qed
  next
    case False
    then have "chunks_from lst n i = []" by (subst chunks_from.simps) simp
    then show ?thesis using 1(3) by simp
  qed
qed

lemma ceil_div_cases:
  fixes L N :: nat
  assumes "0 < N"
  shows "(L + N - 1) div N = (if L mod N = 0 then L div N else Suc (L div N))"
proof -
  define q r where "q = L div N" and "r = L mod N"
  have L: "L = q * N + r" and r: "r < N" using assms by (simp_all add: q_def r_def)
  show ?thesis
  proof (cases "r = 0")
    case True
    have "L + N - 1 = q * N + (N - 1)" using L True assms by simp
    then have "(L + N - 1) div N = q" using assms by (intro div_between) simp_all
    then show ?thesis using True by (simp add: q_def r_def)
  next
    case False
    have "L + N - 1 = Suc q * N + (r - 1)" using L False assms by simp
    then have "(L + N - 1) div N = Suc q" using assms r by (intro div_between) simp_all
    then show ?thesis using False by (simp add: q_def r_def)
  qed
qed

lemma ceil_div_real:
  fixes L N :: nat
  assumes "0 < N"
  shows "\<lceil>real L / real N\<rceil> = int ((L + N - 1) div N)"
proof (rule ceiling_unique)
  define c where "c = (L + N - 1) div N"
  have 1: "c * N \<le> L + N - 1" unfolding c_def by simp
  have 2: "L + N - 1 < N + c * N" unfolding c_def using assms by (rule dividend_less_div_times)
  have up: "L \<le> c * N" using 2 by simp
  have lo: "c * N < L + N" using 1 assms by simp
  have "real L \<le> real c * real N" using up by (metis of_nat_le_iff of_nat_mult)
  then show "real L / real N \<le> of_int (int ((L + N - 1) div N))"
    using assms by (simp add: pos_divide_le_eq c_def)
  have "real c * real N < real L + real N" using lo by (metis of_nat_less_iff of_nat_mult of_nat_add)
  then have "(real c - 1) * real N < real L" by (simp add: algebra_simps)
  then show "of_int (int ((L + N - 1) div N)) - 1 < real L / real N"
    using assms by (simp add: pos_less_divide_eq c_def)
qed

lemma chunks_from_sizes:
  fixes N :: nat
  assumes N: "0 < N" and j: "j < length (chunks_from lst N 0)"
  shows "length (chunks_from lst N 0 ! j) =
           (if Suc j < length (chunks_from lst N 0) then N
            else if length lst mod N = 0 then N else length lst mod N)"
proof -
  define L where "L = length lst"
  define c where "c = (L + N - 1) div N"
  have len: "length (chunks_from lst N 0) = c"
    using chunks_from_length[OF N, of lst 0] by (simp add: c_def L_def)
  have sz: "length (chunks_from lst N 0 ! j) = min N (L - j * N)"
    using chunks_from_nth[OF N j] by (simp add: L_def min.commute)
  show ?thesis
  proof (cases "Suc j < c")
    case True
    then have "(j + 2) * N \<le> c * N" by (intro mult_le_mono1) simp
    moreover have "c * N \<le> L + N - 1" unfolding c_def by simp
    ultimately have "j * N + N \<le> L" using N by simp
    then have "min N (L - j * N) = N" by simp
    then show ?thesis using sz len True by simp
  next
    case False
    then have jc: "Suc j = c" using j len by simp
    have cc: "c = (if L mod N = 0 then L div N else Suc (L div N))"
      unfolding c_def using N by (rule ceil_div_cases)
    show ?thesis
    proof (cases "L mod N = 0")
      case True
      then have "L = Suc j * N" using cc jc by (metis div_mult_mod_eq add.right_neutral)
      then have "min N (L - j * N) = N" by simp
      then show ?thesis using sz len jc True by (simp add: L_def)
    next
      case False
      then have "j = L div N" using cc jc by simp
      then have "L - j * N = L mod N" by (simp add: minus_div_mult_eq_mod)
      moreover have "L mod N < N" using N by simp
      ultimately have "min N (L - j * N) = L mod N" by simp
      then show ?thesis using sz len jc False by (simp add: L_def)
    qed
  qed
qed

text \<open>
  Claim C1. For a list of length \<open>L\<close> and a chunk size \<open>n > 0\<close>, \<open>chunk_list\<close> raises nothing
  and yields \<open>\<lceil>L / n\<rceil>\<close> batches; every batch but the last has \<open>n\<close> elements, the last has
  \<open>L mod n\<close> elements, or \<open>n\<close> when \<open>L mod n = 0\<close>; the batches concatenated in order are the
  list; the empty list yields no batch.
\<close>

theorem chunk_list_batches:
  assumes "0 < n"
  shows "\<exists>bs. chunk_list lst n = Inr bs
           \<and> int (length bs) = \<lceil>real (length lst) / real_of_int n\<rceil>
           \<and> (\<forall>j < length bs. length (bs ! j) =
                 (if Suc j < length bs then nat n
                  else if length lst mod nat n = 0 then nat n else length lst mod nat n))
           \<and> concat bs = lst
           \<and> (lst = [] \<longrightarrow> bs = [])"
proof -
  define N where "N = nat n"
  have N: "0 < N" and n: "n = int N" using assms by (simp_all add: N_def)
  define bs where "bs = chunks_from lst N 0"
  have 1: "chunk_list lst n = Inr bs" using assms by (simp add: chunk_list_def bs_def N_def)
  have "length bs = (length lst + N - 1) div N"
    using chunks_from_length[OF N, of lst 0] by (simp add: bs_def)
  then have 2: "int (length bs) = \<lceil>real (length lst) / real_of_int n\<rceil>"
    using ceil_div_real[OF N, of "length lst"] by (simp add: n)
  have 3: "\<forall>j < length bs. length (bs ! j) =
                 (if Suc j < length bs then nat n
                  else if length lst mod nat n = 0 then nat n else length lst mod nat n)"
    using chunks_from_sizes[OF N, of _ lst] by (simp add: bs_def N_def)
  have 4: "concat bs = lst" using chunks_from_concat[OF N, of lst 0] by (simp add: bs_def)
  have 5: "lst = [] \<longrightarrow> bs = []" using 4
    by (simp add: bs_def chunks_from.simps)
  show ?thesis using 1 2 3 4 5 by blast
qed

theorem chunk_list_batches_witness:
  "(0::int) < 3 \<and> (\<exists>bs. chunk_list ''abcdefg'' 3 = Inr bs
           \<and> int (length bs) = \<lceil>real (length ''abcdefg'') / real_of_int 3\<rceil>
           \<and> (\<forall>j < length bs. length (bs ! j) =
                 (if Suc j < length bs then nat 3
                  else if length ''abcdefg'' mod nat 3 = 0 then nat 3
                       else length ''abcdefg'' mod nat 3))
           \<and> concat bs = ''abcdefg''
           \<and> (''abcdefg'' = [] \<longrightarrow> bs = []))
   \<and> chunk_list ''abcdefg'' 3 = Inr [''abc'', ''def'', ''g'']
   \<and> chunk_list ([] :: string list) 3 = Inr []"
proof -
  have h: "(0::int) < 3" by simp
  have v: "chunk_list ''abcdefg'' 3 = Inr [''abc'', ''def'', ''g'']"
    by (simp add: chunk_list_def chunks_from.simps)
  have e: "chunk_list ([] :: string list) 3 = Inr []"
    by (simp add: chunk_list_def chunks_from.simps)
  from chunk_list_batches[OF h, of "''abcdefg''"] h v e show ?thesis by blast
qed

section \<open>The Retrying Request Client\<close>

lemma post_attempts_retry:
  "int k < m \<Longrightarrow> transient (R (posts w) d) \<Longrightarrow>
     post_attempts R d m k w = post_attempts R d m (Suc k) (sleep (2 ^ k) (posted w))"
  by (subst post_attempts.simps) (auto simp: transient_def split: outcome.splits)

lemma post_attempts_return:
  "int k < m \<Longrightarrow> R (posts w) d = Responded r \<Longrightarrow> status_code r \<noteq> 503 \<Longrightarrow>
     post_attempts R d m k w = (Some r, posted w)"
  by (subst post_attempts.simps) simp

lemma post_attempts_exhausted:
  "\<not> int k < m \<Longrightarrow> post_attempts R d m k w = (None, w)"
  by (subst post_attempts.simps) simp

lemma backoff_from_Suc:
  "map (\<lambda>i. (2::nat) ^ (k + i)) [0..<Suc j] = 2 ^ k # map (\<lambda>i. 2 ^ (Suc k + i)) [0..<j]"
proof -
  have "[0..<Suc j] = 0 # map Suc [0..<j]"
    by (simp add: upt_conv_Cons map_Suc_upt del: upt_Suc)
  then show ?thesis by (simp add: comp_def del: upt_Suc)
qed

lemma post_attempts_transients:
  "int (k + j) \<le> m \<Longrightarrow> \<forall>i<j. transient (R (posts w + i) d) \<Longrightarrow>
     post_attempts R d m k w =
       post_attempts R d m (k + j)
         (w\<lparr>posts := posts w + j, sleeps := sleeps w @ map (\<lambda>i. 2 ^ (k + i)) [0..<j]\<rparr>)"
proof (induction j arbitrary: k w)
  case 0
  then show ?case by simp
next
  case (Suc j)
  let ?w = "sleep (2 ^ k) (posted w)"
  have t0: "transient (R (posts w) d)" using Suc.prems(2) by (metis add.right_neutral zero_less_Suc)
  have step: "post_attempts R d m k w = post_attempts R d m (Suc k) ?w"
    using Suc.prems(1) t0 by (intro post_attempts_retry) simp
  have tr: "\<forall>i<j. transient (R (posts ?w + i) d)"
  proof (intro allI impI)
    fix i assume "i < j"
    then have "Suc i < Suc j" by simp
    then have "transient (R (posts w + Suc i) d)" using Suc.prems(2) by blast
    then show "transient (R (posts ?w + i) d)" by (simp add: sleep_def posted_def)
  qed
  have "post_attempts R d m (Suc k) ?w =
          post_attempts R d m (Suc k + j)
            (?w\<lparr>posts := posts ?w + j, sleeps := sleeps ?w @ map (\<lambda>i. 2 ^ (Suc k + i)) [0..<j]\<rparr>)"
    using Suc.prems(1) tr by (intro Suc.IH) simp
  moreover have "?w\<lparr>posts := posts ?w + j, sleeps := sleeps ?w @ map (\<lambda>i. 2 ^ (Suc k + i)) [0..<j]\<rparr>
        = w\<lparr>posts := posts w + Suc j, sleeps := sleeps w @ map (\<lambda>i. 2 ^ (k + i)) [0..<Suc j]\<rparr>"
    unfolding backoff_from_Suc by (simp add: sleep_def posted_def)
  ultimately show ?case using step by simp
qed

lemma post_with_retry_responded:
  assumes "int j < max_retries"
    and "\<forall>i<j. transient (R (posts w + i) data)"
    and "R (posts w + j) data = Responded r"
    and "status_code r \<noteq> 503"
  shows "post_with_retry R data max_retries w =
           (Some r, w\<lparr>posts := posts w + Suc j, sleeps := sleeps w @ backoff j\<rparr>)"
proof -
  let ?w = "w\<lparr>posts := posts w + j, sleeps := sleeps w @ backoff j\<rparr>"
  have "post_attempts R data max_retries 0 w = post_attempts R data max_retries (0 + j) ?w"
    using post_attempts_transients[of 0 j max_retries R w data] assms(1,2)
    by (simp add: backoff_def)
  moreover have "post_attempts R data max_retries j ?w = (Some r, posted ?w)"
    using assms(1,3,4) by (intro post_attempts_return) simp_all
  ultimately show ?thesis by (simp add: post_with_retry_def posted_def)
qed

lemma post_with_retry_none:
  assumes "\<forall>i<5. transient (R (posts w + i) chunk)"
  shows "post_with_retry R chunk 5 w =
           (None, w\<lparr>posts := posts w + 5, sleeps := sleeps w @ [1, 2, 4, 8, 16]\<rparr>)"
proof -
  let ?w = "w\<lparr>posts := posts w + 5, sleeps := sleeps w @ map (\<lambda>i. 2 ^ (0 + i)) [0..<5]\<rparr>"
  have "post_attempts R chunk 5 0 w = post_attempts R chunk 5 (0 + 5) ?w"
    using assms by (intro post_attempts_transients) simp_all
  moreover have "post_attempts R chunk 5 5 ?w = (None, ?w)"
    by (intro post_attempts_exhausted) simp
  moreover have "map (\<lambda>i. (2::nat) ^ (0 + i)) [0..<5] = [1, 2, 4, 8, 16]"
    by (simp add: upt_rec)
  ultimately show ?thesis by (simp add: post_with_retry_def)
qed

lemma post_with_retry_all_transient:
  assumes "\<forall>i<m. transient (R (posts w + i) data)"
  shows "post_with_retry R data (int m) w =
           (None, w\<lparr>posts := posts w + m, sleeps := sleeps w @ backoff m\<rparr>)"
proof -
  let ?w = "w\<lparr>posts := posts w + m, sleeps := sleeps w @ backoff m\<rparr>"
  have "post_attempts R data (int m) 0 w = post_attempts R data (int m) (0 + m) ?w"
    using post_attempts_transients[of 0 m "int m" R w data] assms by (simp add: backoff_def)
  moreover have "post_attempts R data (int m) m ?w = (None, ?w)"
    by (intro post_attempts_exhausted) simp
  ultimately show ?thesis by (simp add: post_with_retry_def)
qed

lemmas eval_defs = handle_response_def response_ok_def response_json_def handle_payload_def
  json_normalize_def DataFrame_def first_seen_def normalise_json_ordered_def fill_missing_def
  ensure_column_def COLUMNS_OF_INTEREST_def select_columns_def cell_at_def

text \<open>
  Claim C2. When the first \<open>j\<close> attempts of a batch (\<open>j\<close> below the attempt budget) end
  in a 503 status or a network failure and the next one yields a response \<open>r\<close> with any
  other status, \<open>post_with_retry\<close> has slept \<open>2 ^ k\<close> after each failed attempt \<open>k\<close>, that
  is \<open>1, 2, ..., 2 ^ (j - 1)\<close> in this order, has made \<open>j + 1\<close> requests and no more, and
  returns \<open>r\<close> without a further sleep; the caller then handles exactly this response.
  A failed attempt is not given back: when all \<open>m\<close> attempts of the budget fail in
  this way, \<open>m\<close> requests were made and the result is \<open>None\<close>.
  Three 503 answers followed by a 200 give the sleeps 1, 2, 4 and the 200 response, whose
  record reaches the results of the batch (the witness).
\<close>

theorem post_with_retry_backoff:
  assumes "int j < max_retries"
    and "\<forall>i<j. transient (R (posts w + i) data)"
    and "R (posts w + j) data = Responded r"
    and "status_code r \<noteq> 503"
  shows "post_with_retry R data max_retries w =
           (Some r, w\<lparr>posts := posts w + Suc j, sleeps := sleeps w @ backoff j\<rparr>)
       \<and> (max_retries = 5 \<longrightarrow>
            process_chunk R data results_df w =
              (case handle_response (Some r) results_df of
                 Inl e \<Rightarrow> Inl e
               | Inr results_df' \<Rightarrow>
                   Inr (results_df',
                        w\<lparr>posts := posts w + Suc j, sleeps := sleeps w @ backoff j\<rparr>)))
       \<and> ((\<forall>i<m. transient (R (posts w + i) data)) \<longrightarrow>
            post_with_retry R data (int m) w =
              (None, w\<lparr>posts := posts w + m, sleeps := sleeps w @ backoff m\<rparr>))"
proof (intro conjI impI)
  show "post_with_retry R data (int m) w =
              (None, w\<lparr>posts := posts w + m, sleeps := sleeps w @ backoff m\<rparr>)"
    if "\<forall>i<m. transient (R (posts w + i) data)"
    using that by (rule post_with_retry_all_transient)
  show a: "post_with_retry R data max_retries w =
             (Some r, w\<lparr>posts := posts w + Suc j, sleeps := sleeps w @ backoff j\<rparr>)"
    using assms by (rule post_with_retry_responded)
  assume "max_retries = 5"
  then have "post_with_retry R data 5 w =
               (Some r, w\<lparr>posts := posts w + Suc j, sleeps := sleeps w @ backoff j\<rparr>)"
    using a by (simp only:)
  then show "process_chunk R data results_df w =
              (case handle_response (Some r) results_df of
                 Inl e \<Rightarrow> Inl e
               | Inr results_df' \<Rightarrow>
                   Inr (results_df',
                        w\<lparr>posts := posts w + Suc j, sleeps := sleeps w @ backoff j\<rparr>))"
    by (simp only: process_chunk_def prod.case)
qed

theorem post_with_retry_backoff_witness:
  "int 3 < 5
   \<and> transient (scenario2_remote (posts fresh + 0) [''00012345678905''])
   \<and> transient (scenario2_remote (posts fresh + 1) [''00012345678905''])
   \<and> transient (scenario2_remote (posts fresh + 2) [''00012345678905''])
   \<and> scenario2_remote (posts fresh + 3) [''00012345678905''] = Responded scenario2_response
   \<and> status_code scenario2_response \<noteq> 503
   \<and> post_with_retry scenario2_remote [''00012345678905''] 5 fresh =
         (Some scenario2_response, \<lparr>posts = 4, sleeps = [1, 2, 4]\<rparr>)
   \<and> process_chunk scenario2_remote [''00012345678905''] [] fresh =
         Inr ([\<lparr>columns = COLUMNS_OF_INTEREST,
                 rows = [[Val (JStr ''00012345678905''), NA, NA, NA, NA]]\<rparr>],
              \<lparr>posts = 4, sleeps = [1, 2, 4]\<rparr>)
   \<and> post_with_retry scenario2_remote [''00012345678905''] (int 2) fresh =
         (None, \<lparr>posts = 2, sleeps = [1, 2]\<rparr>)"
proof -
  have h1: "int 3 < 5" by simp
  have h2: "\<forall>i<3. transient (scenario2_remote (posts fresh + i) [''00012345678905''])"
    by (simp add: scenario2_remote_def transient_def fresh_def)
  have h3: "scenario2_remote (posts fresh + 3) [''00012345678905''] = Responded scenario2_response"
    by (simp add: scenario2_remote_def scenario2_response_def fresh_def)
  have h4: "status_code scenario2_response \<noteq> 503" by (simp add: scenario2_response_def)
  have b: "backoff 3 = [1, 2, 4]" by (simp add: backoff_def upt_rec)
  have w: "fresh\<lparr>posts := posts fresh + Suc 3, sleeps := sleeps fresh @ backoff 3\<rparr>
             = \<lparr>posts = 4, sleeps = [1, 2, 4]\<rparr>"
    by (simp add: b fresh_def)
  have p: "handle_response (Some scenario2_response) [] =
             Inr [\<lparr>columns = COLUMNS_OF_INTEREST,
                    rows = [[Val (JStr ''00012345678905''), NA, NA, NA, NA]]\<rparr>]"
    by (simp add: scenario2_response_def eval_defs)
  note T = post_with_retry_backoff[of 3 5 scenario2_remote fresh "[''00012345678905'']"
             scenario2_response "[]" 2, OF h1 h2 h3 h4]
  have h5: "\<forall>i<2. transient (scenario2_remote (posts fresh + i) [''00012345678905''])"
    by (simp add: scenario2_remote_def transient_def fresh_def)
  have b2: "backoff 2 = [1, 2]" by (simp add: backoff_def upt_rec)
  have x: "post_with_retry scenario2_remote [''00012345678905''] (int 2) fresh =
         (None, \<lparr>posts = 2, sleeps = [1, 2]\<rparr>)"
    using T h5 by (simp add: b2 fresh_def)
  have e: "transient (scenario2_remote (posts fresh + 0) [''00012345678905''])
      \<and> transient (scenario2_remote (posts fresh + 1) [''00012345678905''])
      \<and> transient (scenario2_remote (posts fresh + 2) [''00012345678905''])"
    by (simp add: scenario2_remote_def transient_def fresh_def)
  show ?thesis using T e h1 h3 h4 x by (simp add: b fresh_def p)
qed

text \<open>
  Claim C3. When all five attempts for a batch end in a 503 status or a network failure,
  \<open>post_with_retry\<close> returns \<open>None\<close> (after the sleeps 1, 2, 4, 8, 16) and raises
  nothing; the batch adds no table to the results of the file, and the loop goes on with
  the next batch.
\<close>

theorem exhausted_batch_is_skipped:
  assumes "\<forall>i<5. transient (R (posts w + i) chunk)"
  shows "post_with_retry R chunk 5 w =
           (None, w\<lparr>posts := posts w + 5, sleeps := sleeps w @ [1, 2, 4, 8, 16]\<rparr>)
       \<and> process_chunk R chunk results_df w =
           Inr (results_df, w\<lparr>posts := posts w + 5, sleeps := sleeps w @ [1, 2, 4, 8, 16]\<rparr>)
       \<and> batch_loop R (chunk # rest) results_df w =
           batch_loop R rest results_df
             (w\<lparr>posts := posts w + 5, sleeps := sleeps w @ [1, 2, 4, 8, 16]\<rparr>)"
  using post_with_retry_none[of R w chunk] assms
  by (simp add: process_chunk_def handle_response_def)

theorem exhausted_batch_is_skipped_witness:
  "transient (flaky_remote (posts fresh + 0) [''00012345678905''])
   \<and> transient (flaky_remote (posts fresh + 1) [''00012345678905''])
   \<and> transient (flaky_remote (posts fresh + 2) [''00012345678905''])
   \<and> transient (flaky_remote (posts fresh + 3) [''00012345678905''])
   \<and> transient (flaky_remote (posts fresh + 4) [''00012345678905''])
   \<and> post_with_retry flaky_remote [''00012345678905''] 5 fresh =
         (None, \<lparr>posts = 5, sleeps = [1, 2, 4, 8, 16]\<rparr>)
   \<and> process_chunk flaky_remote [''00012345678905''] [] fresh =
         Inr ([], \<lparr>posts = 5, sleeps = [1, 2, 4, 8, 16]\<rparr>)
   \<and> batch_loop flaky_remote [[''00012345678905''], [''00012345678905'']] [] fresh =
         Inr ([\<lparr>columns = COLUMNS_OF_INTEREST,
                 rows = [[Val (JStr ''00012345678905''), NA, NA, NA, NA]]\<rparr>],
              \<lparr>posts = 6, sleeps = [1, 2, 4, 8, 16]\<rparr>)"
proof -
  have h: "\<forall>i<5. transient (flaky_remote (posts fresh + i) [''00012345678905''])"
    by (simp add: flaky_remote_def transient_def fresh_def)
  have n: "post_with_retry flaky_remote [''00012345678905'' ] 5 \<lparr>posts = 5, sleeps = [1, 2, 4, 8, 16]\<rparr>
             = (Some scenario2_response, \<lparr>posts = 6, sleeps = [1, 2, 4, 8, 16]\<rparr>)"
    by (simp add: post_with_retry_def post_attempts.simps flaky_remote_def scenario2_response_def
          posted_def)
  have p: "handle_response (Some scenario2_response) [] =
             Inr [\<lparr>columns = COLUMNS_OF_INTEREST,
                    rows = [[Val (JStr ''00012345678905''), NA, NA, NA, NA]]\<rparr>]"
    by (simp add: scenario2_response_def eval_defs)
  have w: "fresh\<lparr>posts := posts fresh + 5, sleeps := sleeps fresh @ [1, 2, 4, 8, 16]\<rparr>
             = \<lparr>posts = 5, sleeps = [1, 2, 4, 8, 16]\<rparr>"
    by (simp add: fresh_def)
  note T = exhausted_batch_is_skipped[of flaky_remote fresh "[''00012345678905'']" "[]"
             "[[''00012345678905'']]", OF h, unfolded w]
  have l: "batch_loop flaky_remote [[''00012345678905'']] []
             \<lparr>posts = 5, sleeps = [1, 2, 4, 8, 16]\<rparr> =
           Inr ([\<lparr>columns = COLUMNS_OF_INTEREST,
                   rows = [[Val (JStr ''00012345678905''), NA, NA, NA, NA]]\<rparr>],
                \<lparr>posts = 6, sleeps = [1, 2, 4, 8, 16]\<rparr>)"
    unfolding batch_loop.simps process_chunk_def n by (simp add: p)
  have e: "transient (flaky_remote (posts fresh + 0) [''00012345678905''])
      \<and> transient (flaky_remote (posts fresh + 1) [''00012345678905''])
      \<and> transient (flaky_remote (posts fresh + 2) [''00012345678905''])
      \<and> transient (flaky_remote (posts fresh + 3) [''00012345678905''])
      \<and> transient (flaky_remote (posts fresh + 4) [''00012345678905''])"
    by (simp add: flaky_remote_def transient_def fresh_def)
  show ?thesis using e T l by (simp only:)
qed

section \<open>Payloads, parse failures and identifier extraction\<close>

lemma batch_loop_append:
  "batch_loop R (xs @ ys) results_df w =
     (case batch_loop R xs results_df w of
        Inl e \<Rightarrow> Inl e
      | Inr (results_df', w') \<Rightarrow> batch_loop R ys results_df' w')"
  by (induction xs arbitrary: results_df w) (auto split: sum.splits)

lemma process_files_append:
  "process_files R (xs @ ys) st =
     (case process_files R xs st of Inl e \<Rightarrow> Inl e | Inr st' \<Rightarrow> process_files R ys st')"
  by (induction xs arbitrary: st) (auto split: sum.splits)

text \<open>
  Claim C9, as stated, fails: the payload \<open>null\<close> is valid JSON and has no \<open>products\<close>
  key, and the membership test of line 108 raises \<open>TypeError\<close> on it, which nothing
  catches.
\<close>

theorem null_payload_raises:
  "handle_payload JNull [] = Inl TypeError
   \<and> handle_response (Some null_response) [] = Inl TypeError
   \<and> process_chunk null_remote [''00012345678905''] [] fresh = Inl TypeError"
  by (simp add: handle_payload_def handle_response_def null_response_def response_ok_def
        response_json_def process_chunk_def post_with_retry_def post_attempts.simps
        null_remote_def)

text \<open>
  Claim C9, amended. For every payload that is a JSON object without a \<open>products\<close> key
  (or a JSON list or string that does not contain \<open>products\<close>), the batch contributes no
  table and raises nothing, and the loop goes on with the next batch.
\<close>

theorem payload_without_products:
  assumes "(\<exists>kvs. data = JObj kvs \<and> ''products'' \<notin> set (map fst kvs))
         \<or> (\<exists>xs. data = JArr xs \<and> JStr ''products'' \<notin> set xs)
         \<or> (\<exists>s. data = JStr s \<and> \<not> sublist ''products'' s)"
    and "post_with_retry R chunk 5 w = (Some r, w')"
    and "status_code r = 200"
    and "content r = Json data"
  shows "handle_payload data results_df = Inr results_df
       \<and> process_chunk R chunk results_df w = Inr (results_df, w')
       \<and> batch_loop R (chunk # rest) results_df w = batch_loop R rest results_df w'"
proof -
  have "py_in ''products'' data = Inr False" using assms(1) by auto
  then have a: "handle_payload data results_df = Inr results_df"
    by (simp add: handle_payload_def)
  have "handle_response (Some r) results_df = Inr results_df"
    using a assms(3,4) by (simp add: handle_response_def response_ok_def response_json_def)
  then have b: "process_chunk R chunk results_df w = Inr (results_df, w')"
    using assms(2) by (simp add: process_chunk_def)
  then show ?thesis using a by simp
qed

theorem payload_without_products_witness:
  "((\<exists>kvs. JObj [(''message'', JStr ''no results'')] = JObj kvs
           \<and> ''products'' \<notin> set (map fst kvs))
      \<or> (\<exists>xs. JObj [(''message'', JStr ''no results'')] = JArr xs
           \<and> JStr ''products'' \<notin> set xs)
      \<or> (\<exists>s. JObj [(''message'', JStr ''no results'')] = JStr s
           \<and> \<not> sublist ''products'' s))
   \<and> post_with_retry no_products_remote [''00012345678905''] 5 fresh =
        (Some no_products_response, \<lparr>posts = 1, sleeps = []\<rparr>)
   \<and> status_code no_products_response = 200
   \<and> content no_products_response = Json (JObj [(''message'', JStr ''no results'')])
   \<and> handle_payload (JObj [(''message'', JStr ''no results'')]) [] = Inr []
   \<and> process_chunk no_products_remote [''00012345678905''] [] fresh =
        Inr ([], \<lparr>posts = 1, sleeps = []\<rparr>)
   \<and> batch_loop no_products_remote [[''00012345678905'']] [] fresh =
        Inr ([], \<lparr>posts = 1, sleeps = []\<rparr>)"
proof -
  have h1: "(\<exists>kvs. JObj [(''message'', JStr ''no results'')] = JObj kvs
           \<and> ''products'' \<notin> set (map fst kvs))
      \<or> (\<exists>xs. JObj [(''message'', JStr ''no results'')] = JArr xs
           \<and> JStr ''products'' \<notin> set xs)
      \<or> (\<exists>s. JObj [(''message'', JStr ''no results'')] = JStr s
           \<and> \<not> sublist ''products'' s)"
    by simp
  have h2: "post_with_retry no_products_remote [''00012345678905''] 5 fresh =
        (Some no_products_response, \<lparr>posts = 1, sleeps = []\<rparr>)"
    by (simp add: post_with_retry_def post_attempts.simps no_products_response_def posted_def
          fresh_def no_products_remote_def)
  have h3: "status_code no_products_response = 200" by (simp add: no_products_response_def)
  have h4: "content no_products_response = Json (JObj [(''message'', JStr ''no results'')])"
    by (simp add: no_products_response_def)
  note T = payload_without_products[of "JObj [(''message'', JStr ''no results'')]"
             no_products_remote "[''00012345678905'']" fresh
             no_products_response "\<lparr>posts = 1, sleeps = []\<rparr>" "[]" "[]", OF h1 h2 h3 h4]
  have l: "batch_loop no_products_remote [] [] \<lparr>posts = 1, sleeps = []\<rparr> =
             Inr ([], \<lparr>posts = 1, sleeps = []\<rparr>)"
    by simp
  show ?thesis using T h2 h3 h4 by (intro conjI h1) (simp_all only: l)
qed

text \<open>
  Claim C10. An attempt that yields a response with a status other than 503 returns it
  at once, whatever its body. The response that \<open>post_with_retry\<close> returns for a batch
  is parsed with \<^verbatim>\<open>response.json()\<close> whenever its status is 200, and nothing catches
  the exception of a body that is not JSON: the batch step, the file and the whole run
  end with \<open>JSONDecodeError\<close>, whatever files came before or would come after.
\<close>

theorem invalid_json_aborts_run:
  assumes "process_files R before initial_state = Inr st"
    and "identifiers uploaded_file = Inr gtins"
    and "chunk_list gtins 10 = Inr (sent @ chunk # unsent)"
    and "batch_loop R sent [] (net st) = Inr (results_df, w)"
    and "post_with_retry R chunk 5 w = (Some r, w')"
    and "status_code r = 200"
    and "content r = NotJson"
  shows "process_chunk R chunk results_df w = Inl JSONDecodeError
       \<and> process_file R uploaded_file st = Inl JSONDecodeError
       \<and> main R (before @ uploaded_file # after) sess = Inl JSONDecodeError
       \<and> (int attempt < max_retries \<and> R (posts w0) data = Responded r0
            \<and> status_code r0 \<noteq> 503 \<longrightarrow>
            post_attempts R data max_retries attempt w0 = (Some r0, posted w0))"
proof -
  have c: "int attempt < max_retries \<and> R (posts w0) data = Responded r0
            \<and> status_code r0 \<noteq> 503 \<longrightarrow>
            post_attempts R data max_retries attempt w0 = (Some r0, posted w0)"
    using post_attempts_return[of attempt max_retries R w0 data r0] by blast
  have "handle_response (Some r) results_df = Inl JSONDecodeError"
    using assms(6,7) by (simp add: handle_response_def response_ok_def response_json_def)
  then have a: "process_chunk R chunk results_df w = Inl JSONDecodeError"
    using assms(5) by (simp add: process_chunk_def)
  have "batch_loop R (sent @ chunk # unsent) [] (net st) = Inl JSONDecodeError"
    using assms(4) a by (simp add: batch_loop_append)
  then have b: "process_file R uploaded_file st = Inl JSONDecodeError"
    using assms(2,3) by (simp add: process_file_def)
  have "process_files R (before @ uploaded_file # after) initial_state = Inl JSONDecodeError"
    using assms(1) b by (simp add: process_files_append)
  then have "main R (before @ uploaded_file # after) sess = Inl JSONDecodeError"
    by (simp add: main_def)
  then show ?thesis using a b c by blast
qed

theorem invalid_json_aborts_run_witness:
  "process_files html_remote [] initial_state = Inr initial_state
   \<and> identifiers (one_gtin_file ''a.csv'') = Inr [''00012345678905'']
   \<and> chunk_list [''00012345678905''] 10 = Inr ([] @ [''00012345678905''] # [])
   \<and> batch_loop html_remote [] [] (net initial_state) =
         Inr ([], net initial_state)
   \<and> post_with_retry html_remote [''00012345678905''] 5
         (net initial_state) = (Some html_response, \<lparr>posts = 1, sleeps = []\<rparr>)
   \<and> status_code html_response = 200
   \<and> content html_response = NotJson
   \<and> process_chunk html_remote [''00012345678905''] []
         (net initial_state) = Inl JSONDecodeError
   \<and> process_file html_remote (one_gtin_file ''a.csv'') initial_state =
         Inl JSONDecodeError
   \<and> main html_remote
         ([] @ one_gtin_file ''a.csv'' # [one_gtin_file ''b.csv'']) empty_session =
         Inl JSONDecodeError"
proof -
  have h1: "process_files html_remote [] initial_state = Inr initial_state" by simp
  have h2: "identifiers (one_gtin_file ''a.csv'') = Inr [''00012345678905'']"
    by (simp add: identifiers_def one_gtin_file_def read_table_def na_filter_def na_values_def
          normalized_cols_def lower_def lower_char_def column_values_def)
  have h3: "chunk_list [''00012345678905''] 10 = Inr ([] @ [''00012345678905''] # [])"
    by (simp add: chunk_list_def chunks_from.simps)
  have h4: "batch_loop html_remote [] [] (net initial_state) = Inr ([], net initial_state)" by simp
  have h5: "post_with_retry html_remote [''00012345678905''] 5 (net initial_state) =
              (Some html_response, \<lparr>posts = 1, sleeps = []\<rparr>)"
    by (simp add: post_with_retry_def post_attempts.simps html_response_def posted_def
          initial_state_def html_remote_def)
  have h6: "status_code html_response = 200" by (simp add: html_response_def)
  have h7: "content html_response = NotJson" by (simp add: html_response_def)
  note T = invalid_json_aborts_run[of html_remote "[]" initial_state "one_gtin_file ''a.csv''"
             "[''00012345678905'']" "[]" "[''00012345678905'']" "[]" "[]" "net initial_state"
             html_response "\<lparr>posts = 1, sleeps = []\<rparr>" "[one_gtin_file ''b.csv'']"
             empty_session, OF h1 h2 h3 h4 h5 h6 h7]
  show ?thesis using h1 h2 h3 h4 h5 h6 h7 T by (simp only:)
qed






section \<open>Tables\<close>

lemma remdups_append_subset: "set xs \<subseteq> set ys \<Longrightarrow> remdups (xs @ ys) = remdups ys"
  by (induction xs) auto

lemma first_seen_set [simp]: "set (first_seen xs) = set xs"
  by (simp add: first_seen_def)

lemma first_seen_distinct [simp]: "distinct (first_seen xs)"
  by (simp add: first_seen_def)

lemma first_seen_prefix:
  assumes "distinct cs" and "set ys \<subseteq> set cs"
  shows "first_seen (cs @ ys) = cs"
proof -
  have "remdups (rev ys @ rev cs) = remdups (rev cs)"
    using assms(2) by (intro remdups_append_subset) simp
  also have "\<dots> = rev cs" using assms(1) by (simp add: distinct_remdups_id)
  finally show ?thesis by (simp add: first_seen_def)
qed

lemma cell_at_in:
  assumes "distinct cs" and "length r = length cs" and "i < length cs"
  shows "cell_at cs r (cs ! i) = r ! i"
  using assms by (simp add: cell_at_def map_of_zip_nth)

lemma cell_at_out:
  assumes "length r = length cs" and "c \<notin> set cs"
  shows "cell_at cs r c = NaN"
proof -
  have "map_of (zip cs r) c = None" using assms by (simp add: map_of_zip_is_None)
  then show ?thesis by (simp add: cell_at_def)
qed

lemma cell_at_self:
  assumes "distinct cs" and "length r = length cs"
  shows "map (cell_at cs r) cs = r"
  using assms by (intro nth_equalityI) (simp_all add: cell_at_in)

lemma cell_at_map:
  assumes "distinct cs" and "c \<in> set cs"
  shows "cell_at cs (map h cs) c = h c"
proof -
  obtain i where "i < length cs" "cs ! i = c" using assms(2) by (auto simp: in_set_conv_nth)
  then show ?thesis using cell_at_in[OF assms(1), of "map h cs" i] by auto
qed

lemma cell_at_snoc:
  assumes "length r = length cs" and "col \<notin> set cs"
  shows "cell_at (cs @ [col]) (r @ [v]) = (cell_at cs r)(col := v)"
proof
  fix c
  have z: "zip (cs @ [col]) (r @ [v]) = zip cs r @ [(col, v)]" using assms(1) by simp
  show "cell_at (cs @ [col]) (r @ [v]) c = ((cell_at cs r)(col := v)) c"
  proof (cases "c \<in> set cs")
    case True
    then obtain u where a: "map_of (zip cs r) c = Some u"
      using assms(1) by (metis map_of_zip_is_None not_Some_eq)
    have "c \<noteq> col" using True assms(2) by auto
    then show ?thesis by (simp add: cell_at_def map_add_def z a)
  next
    case False
    then have a: "map_of (zip cs r) c = None" using assms(1) by (simp add: map_of_zip_is_None)
    have b: "map_of (zip cs r) col = None" using assms by (simp add: map_of_zip_is_None)
    show ?thesis by (simp add: cell_at_def map_add_def z a b)
  qed
qed

lemma view_ensure_column:
  assumes "aligned f"
  shows "view (ensure_column col f) =
           (if col \<in> set (columns f) then view f else map (\<lambda>g. g(col := NA)) (view f))"
proof (cases "col \<in> set (columns f)")
  case True
  then show ?thesis by (simp add: ensure_column_def)
next
  case False
  have "\<And>r. r \<in> set (rows f) \<Longrightarrow>
          cell_at (columns f @ [col]) (r @ [NA]) = (cell_at (columns f) r)(col := NA)"
    using assms False by (intro cell_at_snoc) (auto simp: aligned_def list_all_iff)
  then show ?thesis using False by (simp add: ensure_column_def view_def)
qed

lemma aligned_ensure_column: "aligned f \<Longrightarrow> aligned (ensure_column col f)"
  by (auto simp: aligned_def ensure_column_def list_all_iff)

lemma columns_ensure_column:
  "set (columns (ensure_column col f)) = insert col (set (columns f))"
  by (auto simp: ensure_column_def)

lemma fold_ensure_column:
  assumes "aligned f" and "distinct cs"
  shows "aligned (fold ensure_column cs f)
       \<and> set (columns (fold ensure_column cs f)) = set (columns f) \<union> set cs
       \<and> view (fold ensure_column cs f) =
           map (\<lambda>g c. if c \<in> set cs \<and> c \<notin> set (columns f) then NA else g c) (view f)"
  using assms
proof (induction cs arbitrary: f)
  case Nil
  then show ?case by simp
next
  case (Cons col cs)
  let ?f = "ensure_column col f"
  have a: "aligned ?f" using Cons.prems(1) by (rule aligned_ensure_column)
  have d: "distinct cs" and n: "col \<notin> set cs" using Cons.prems(2) by simp_all
  note IH = Cons.IH[OF a d]
  have v: "view ?f = (if col \<in> set (columns f) then view f
                      else map (\<lambda>g. g(col := NA)) (view f))"
    using Cons.prems(1) by (rule view_ensure_column)
  have c: "set (columns ?f) = insert col (set (columns f))" by (rule columns_ensure_column)
  have "map (\<lambda>g c. if c \<in> set cs \<and> c \<notin> set (columns ?f) then NA else g c) (view ?f)
        = map (\<lambda>g c. if c \<in> set (col # cs) \<and> c \<notin> set (columns f) then NA else g c) (view f)"
    using n by (auto simp: v c fun_eq_iff)
  then show ?case using IH c by auto
qed

lemma select_columns_view:
  assumes "set cs \<subseteq> set (columns f)"
  shows "select_columns cs f = Inr \<lparr>columns = cs, rows = map (\<lambda>g. map g cs) (view f)\<rparr>"
  using assms by (simp add: select_columns_def view_def)

lemma COLUMNS_distinct: "distinct COLUMNS_OF_INTEREST"
  by (simp add: COLUMNS_OF_INTEREST_def)

lemma COLUMNS_length: "length COLUMNS_OF_INTEREST = 5"
  by (simp add: COLUMNS_OF_INTEREST_def)

lemma normalized_table:
  assumes "aligned f"
  shows "select_columns COLUMNS_OF_INTEREST (fill_missing f) =
           Inr \<lparr>columns = COLUMNS_OF_INTEREST,
                rows = map (\<lambda>g. map (\<lambda>c. if c \<notin> set (columns f) then NA else g c)
                                    COLUMNS_OF_INTEREST) (view f)\<rparr>"
proof -
  note F = fold_ensure_column[OF assms COLUMNS_distinct]
  have "set COLUMNS_OF_INTEREST \<subseteq> set (columns (fill_missing f))"
    using F by (simp add: fill_missing_def)
  then have "select_columns COLUMNS_OF_INTEREST (fill_missing f) =
               Inr \<lparr>columns = COLUMNS_OF_INTEREST,
                    rows = map (\<lambda>g. map g COLUMNS_OF_INTEREST) (view (fill_missing f))\<rparr>"
    by (rule select_columns_view)
  moreover have "view (fill_missing f) =
      map (\<lambda>g c. if c \<in> set COLUMNS_OF_INTEREST \<and> c \<notin> set (columns f) then NA else g c)
          (view f)"
    using F by (simp add: fill_missing_def)
  ultimately show ?thesis by (simp add: comp_def cong: map_cong)
qed

lemma DataFrame_aligned: "aligned (DataFrame ds)"
  by (simp add: DataFrame_def aligned_def list_all_iff Let_def)

lemma DataFrame_columns: "set (columns (DataFrame ds)) = set (concat (map (map fst) ds))"
  by (simp add: DataFrame_def Let_def)

lemma DataFrame_view: "view (DataFrame ds) = map entry_cell ds"
proof -
  let ?cs = "first_seen (concat (map (map fst) ds))"
  have "cell_at ?cs (map (entry_cell d) ?cs) = entry_cell d" if "d \<in> set ds" for d
  proof
    fix c
    show "cell_at ?cs (map (entry_cell d) ?cs) c = entry_cell d c"
    proof (cases "c \<in> set ?cs")
      case True
      then show ?thesis by (intro cell_at_map) simp_all
    next
      case False
      then have "c \<notin> fst ` set d" using that by auto
      then have "map_of d c = None" by (simp add: map_of_eq_None_iff)
      then have "entry_cell d c = NaN" by (simp add: entry_cell_def)
      moreover have "cell_at ?cs (map (entry_cell d) ?cs) c = NaN"
        using False by (intro cell_at_out) simp_all
      ultimately show ?thesis by simp
    qed
  qed
  then show ?thesis
    by (simp add: view_def DataFrame_def Let_def entry_cell_def[abs_def] cong: map_cong)
qed

section \<open>The Result Normalizer\<close>

lemma normalized_dicts_table:
  assumes "normalized_dicts p = Inr ds"
  shows "(case json_normalize p of
            Inl e \<Rightarrow> Inl e
          | Inr products_data \<Rightarrow> select_columns COLUMNS_OF_INTEREST (fill_missing products_data))
         = Inr \<lparr>columns = COLUMNS_OF_INTEREST,
                rows = map (\<lambda>d. map (\<lambda>c. case map_of d c of
                                               Some v \<Rightarrow> Val v
                                             | None \<Rightarrow> if c \<in> set (concat (map (map fst) ds))
                                                       then NaN else NA)
                                     COLUMNS_OF_INTEREST) ds\<rparr>"
proof -
  let ?f = "DataFrame ds"
  have "select_columns COLUMNS_OF_INTEREST (fill_missing ?f) =
          Inr \<lparr>columns = COLUMNS_OF_INTEREST,
               rows = map (\<lambda>g. map (\<lambda>c. if c \<notin> set (columns ?f) then NA else g c)
                                   COLUMNS_OF_INTEREST) (view ?f)\<rparr>"
    using DataFrame_aligned by (rule normalized_table)
  moreover have "map (\<lambda>g. map (\<lambda>c. if c \<notin> set (columns ?f) then NA else g c)
                                   COLUMNS_OF_INTEREST) (view ?f)
      = map (\<lambda>d. map (\<lambda>c. case map_of d c of
                                               Some v \<Rightarrow> Val v
                                             | None \<Rightarrow> if c \<in> set (concat (map (map fst) ds))
                                                       then NaN else NA)
                                     COLUMNS_OF_INTEREST) ds"
  proof -
    have "(if c \<notin> set (columns ?f) then NA else entry_cell d c) =
          (case map_of d c of Some v \<Rightarrow> Val v
           | None \<Rightarrow> if c \<in> set (concat (map (map fst) ds)) then NaN else NA)"
      if "d \<in> set ds" for d c
    proof (cases "c \<in> set (columns ?f)")
      case True
      then show ?thesis by (simp add: DataFrame_columns entry_cell_def split: option.splits)
    next
      case False
      then have "c \<notin> fst ` set d" using that by (auto simp: DataFrame_columns)
      then have "map_of d c = None" by (simp add: map_of_eq_None_iff)
      then show ?thesis using False by (simp add: DataFrame_columns)
    qed
    then show ?thesis by (simp add: DataFrame_view cong: map_cong)
  qed
  ultimately show ?thesis using assms by (simp add: json_normalize_def)
qed

lemma py_getitem_in: "py_getitem data k = Inr p \<Longrightarrow> py_in k data = Inr True"
  by (cases data) (force split: option.splits dest: map_of_SomeD)+

lemma handle_payload_cases:
  assumes "handle_payload data results_df = Inr results'"
  shows "results' = results_df
       \<or> (\<exists>p ds. py_getitem data ''products'' = Inr p \<and> normalized_dicts p = Inr ds
              \<and> results' = results_df @
                   [\<lparr>columns = COLUMNS_OF_INTEREST,
                     rows = map (\<lambda>d. map (\<lambda>c. case map_of d c of
                                               Some v \<Rightarrow> Val v
                                             | None \<Rightarrow> if c \<in> set (concat (map (map fst) ds))
                                                       then NaN else NA)
                                     COLUMNS_OF_INTEREST) ds\<rparr>])"
proof (cases "py_in ''products'' data")
  case (Inl e)
  then show ?thesis using assms by (simp add: handle_payload_def)
next
  case (Inr b)
  show ?thesis
  proof (cases b)
    case False
    then show ?thesis using assms Inr by (simp add: handle_payload_def)
  next
    case True
    then obtain p where p: "py_getitem data ''products'' = Inr p"
      using assms Inr by (auto simp: handle_payload_def split: sum.splits)
    then obtain ds where ds: "normalized_dicts p = Inr ds"
      using assms Inr True
      by (auto simp: handle_payload_def json_normalize_def split: sum.splits)
    have "handle_payload data results_df =
            (case (case json_normalize p of
                     Inl e \<Rightarrow> Inl e
                   | Inr products_data \<Rightarrow>
                       select_columns COLUMNS_OF_INTEREST (fill_missing products_data)) of
               Inl e \<Rightarrow> Inl e | Inr t \<Rightarrow> Inr (results_df @ [t]))"
      using Inr True p by (simp add: handle_payload_def split: sum.splits)
    then show ?thesis using assms p ds by (simp add: normalized_dicts_table[OF ds])
  qed
qed

lemma handle_payload_products:
  assumes "py_getitem data ''products'' = Inr p" and "normalized_dicts p = Inr ds"
  shows "handle_payload data results_df = Inr (results_df @
                   [\<lparr>columns = COLUMNS_OF_INTEREST,
                     rows = map (\<lambda>d. map (\<lambda>c. case map_of d c of
                                               Some v \<Rightarrow> Val v
                                             | None \<Rightarrow> if c \<in> set (concat (map (map fst) ds))
                                                       then NaN else NA)
                                     COLUMNS_OF_INTEREST) ds\<rparr>])"
proof -
  have "handle_payload data results_df =
            (case (case json_normalize p of
                     Inl e \<Rightarrow> Inl e
                   | Inr products_data \<Rightarrow>
                       select_columns COLUMNS_OF_INTEREST (fill_missing products_data)) of
               Inl e \<Rightarrow> Inl e | Inr t \<Rightarrow> Inr (results_df @ [t]))"
    using assms(1) py_getitem_in[OF assms(1)] by (simp add: handle_payload_def split: sum.splits)
  then show ?thesis by (simp add: normalized_dicts_table[OF assms(2)])
qed

lemma handle_payload_schema:
  assumes "handle_payload data results_df = Inr results'" and "list_all schema_ok results_df"
  shows "list_all schema_ok results'"
  using handle_payload_cases[OF assms(1)] assms(2)
  by (auto simp: schema_ok_def list_all_iff COLUMNS_length)

lemma process_chunk_schema:
  assumes "process_chunk R chunk results_df w = Inr (results', w')"
    and "list_all schema_ok results_df"
  shows "list_all schema_ok results'"
proof -
  obtain response where "handle_response response results_df = Inr results'"
    using assms(1) by (auto simp: process_chunk_def split: prod.splits sum.splits)
  then show ?thesis using assms(2) handle_payload_schema
    by (auto simp: handle_response_def split: option.splits if_splits sum.splits)
qed

lemma batch_loop_schema:
  "batch_loop R chunks results_df w = Inr (results', w') \<Longrightarrow> list_all schema_ok results_df
     \<Longrightarrow> list_all schema_ok results'"
proof (induction chunks arbitrary: results_df w)
  case Nil
  then show ?case by simp
next
  case (Cons chunk rest)
  then obtain r1 w1 where s: "process_chunk R chunk results_df w = Inr (r1, w1)"
    and l: "batch_loop R rest r1 w1 = Inr (results', w')"
    by (auto split: sum.splits)
  have "list_all schema_ok r1" using s Cons.prems(2) by (rule process_chunk_schema)
  then show ?case using l Cons.IH by blast
qed

lemma pd_concat_schema:
  assumes "fs \<noteq> []" and "list_all schema_ok fs"
  shows "pd_concat fs = Inr \<lparr>columns = COLUMNS_OF_INTEREST, rows = concat (map rows fs)\<rparr>"
proof -
  obtain f rest where fs: "fs = f # rest" using assms(1) by (cases fs) auto
  have cols: "\<And>g. g \<in> set fs \<Longrightarrow> columns g = COLUMNS_OF_INTEREST"
    using assms(2) by (auto simp: schema_ok_def list_all_iff)
  have "concat (map columns fs) = COLUMNS_OF_INTEREST @ concat (map columns rest)"
    using cols fs by simp
  moreover have "set (concat (map columns rest)) \<subseteq> set COLUMNS_OF_INTEREST"
    using cols fs by auto
  ultimately have c: "first_seen (concat (map columns fs)) = COLUMNS_OF_INTEREST"
    using first_seen_prefix[OF COLUMNS_distinct] by simp
  have "map (cell_at (columns g) r) COLUMNS_OF_INTEREST = r"
    if "g \<in> set fs" "r \<in> set (rows g)" for g r
  proof -
    have "length r = length COLUMNS_OF_INTEREST"
      using that assms(2) by (auto simp: schema_ok_def list_all_iff COLUMNS_length)
    then show ?thesis using cols[OF that(1)] COLUMNS_distinct by (simp add: cell_at_self)
  qed
  then have "concat (map (\<lambda>f. map (\<lambda>r. map (cell_at (columns f) r) COLUMNS_OF_INTEREST) (rows f)) fs)
               = concat (map rows fs)"
    by (intro arg_cong[where f = concat] map_cong) (simp_all cong: map_cong)
  then show ?thesis using assms(1) c by (simp add: pd_concat_def Let_def)
qed

section \<open>The run\<close>

lemma process_file_cases:
  assumes "process_file R f st = Inr st'"
  shows "(\<exists>n w. st' = warn n (st\<lparr>net := w\<rparr>))
       \<or> (\<exists>t w. schema_ok t
              \<and> st' = st\<lparr>all_data := all_data st @ [t],
                        individual_results := AList.update (name f) t (individual_results st),
                        net := w\<rparr>)"
proof (cases "identifiers f")
  case (Inl n)
  then have "st' = warn n (st\<lparr>net := net st\<rparr>)" using assms by (simp add: process_file_def)
  then show ?thesis by blast
next
  case (Inr gtins)
  then obtain chunks results_df w where c: "chunk_list gtins 10 = Inr chunks"
    and b: "batch_loop R chunks [] (net st) = Inr (results_df, w)"
    using assms by (auto simp: process_file_def split: sum.splits)
  have s: "list_all schema_ok results_df" using b by (rule batch_loop_schema) simp
  show ?thesis
  proof (cases "results_df = []")
    case True
    then have "st' = warn (NoValidResults (name f)) (st\<lparr>net := w\<rparr>)"
      using assms Inr c b by (simp add: process_file_def)
    then show ?thesis by blast
  next
    case False
    let ?t = "\<lparr>columns = COLUMNS_OF_INTEREST, rows = concat (map rows results_df)\<rparr>"
    have p: "pd_concat results_df = Inr ?t" using False s by (rule pd_concat_schema)
    have "list_all (\<lambda>r. length r = 5) (concat (map rows results_df))"
      using s by (auto simp: schema_ok_def list_all_iff)
    then have "schema_ok ?t" by (simp add: schema_ok_def)
    moreover have "st' = st\<lparr>all_data := all_data st @ [?t],
                        individual_results := AList.update (name f) ?t (individual_results st),
                        net := w\<rparr>"
      using assms Inr c b False p by (simp add: process_file_def)
    ultimately show ?thesis by blast
  qed
qed

lemma update_values: "(a, b) \<in> set (AList.update k v al) \<Longrightarrow> b = v \<or> (a, b) \<in> set al"
  by (induction al) (auto split: if_splits)


lemma process_file_tables_ok:
  assumes "process_file R f st = Inr st'" and "tables_ok st"
  shows "tables_ok st'"
  using process_file_cases[OF assms(1)]
proof (elim disjE exE conjE)
  fix n w assume "st' = warn n (st\<lparr>net := w\<rparr>)"
  then show ?thesis using assms(2) by (simp add: tables_ok_def warn_def)
next
  fix t w assume t: "schema_ok t"
    and "st' = st\<lparr>all_data := all_data st @ [t],
                  individual_results := AList.update (name f) t (individual_results st),
                  net := w\<rparr>"
  then show ?thesis using assms(2)
    by (auto simp: tables_ok_def list_all_iff dest!: update_values)
qed

lemma process_files_tables_ok:
  "process_files R fs st = Inr st' \<Longrightarrow> tables_ok st \<Longrightarrow> tables_ok st'"
proof (induction fs arbitrary: st)
  case Nil
  then show ?case by simp
next
  case (Cons f fs)
  then obtain st1 where 1: "process_file R f st = Inr st1"
    and 2: "process_files R fs st1 = Inr st'"
    by (auto split: sum.splits)
  have "tables_ok st1" using 1 Cons.prems(2) by (rule process_file_tables_ok)
  then show ?case using 2 Cons.IH by blast
qed

lemma tables_ok_initial: "tables_ok initial_state"
  by (simp add: tables_ok_def initial_state_def)

lemma main_cases:
  assumes "uploaded_files \<noteq> []" and "process_files R uploaded_files initial_state = Inr st"
  shows "main R uploaded_files sess =
           (if all_data st \<noteq> [] then
              Inr (sess\<lparr>final_df := Some \<lparr>columns = COLUMNS_OF_INTEREST,
                                          rows = concat (map rows (all_data st))\<rparr>,
                        saved_results := Some (individual_results st),
                        usage_log := usage_log sess @ [length uploaded_files]\<rparr>,
                   warn AllFilesProcessed st)
            else Inr (sess, warn NoDataProcessed st))"
proof -
  have "tables_ok st" using assms(2) tables_ok_initial by (rule process_files_tables_ok)
  then have "all_data st \<noteq> [] \<Longrightarrow> pd_concat (all_data st) =
      Inr \<lparr>columns = COLUMNS_OF_INTEREST, rows = concat (map rows (all_data st))\<rparr>"
    by (intro pd_concat_schema) (simp_all add: tables_ok_def)
  then show ?thesis using assms by (auto simp: main_def)
qed

section \<open>The File-Level Aggregator and the Run Aggregator\<close>

lemmas file_defs = identifiers_def read_table_def na_filter_def normalized_cols_def lower_def
  lower_char_def column_values_def

























text \<open>
  Claim C4. Whatever the payload, a table that the batch step appends has the five
  columns of line 42 in their order, and the row of a product entry has five cells: for
  each column the value of the flattened entry under that label, and a missing-value
  marker where the entry has none (\<open>NaN\<close> when another entry of the batch has the
  column, \<open>NA\<close> when none has). Every table collected per file and the combined table
  of a run have this schema.
\<close>

theorem product_records_have_fixed_schema:
  "(handle_payload data results_df = Inr results' \<longrightarrow>
      results' = results_df
    \<or> (\<exists>p ds. py_getitem data ''products'' = Inr p \<and> normalized_dicts p = Inr ds
          \<and> results' = results_df @
               [\<lparr>columns = COLUMNS_OF_INTEREST,
                 rows = map (\<lambda>d. map (\<lambda>c. case map_of d c of
                                            Some v \<Rightarrow> Val v
                                          | None \<Rightarrow> if c \<in> set (concat (map (map fst) ds))
                                                    then NaN else NA)
                                  COLUMNS_OF_INTEREST) ds\<rparr>]))
   \<and> (main R uploaded_files sess = Inr (sess', st') \<longrightarrow>
        list_all schema_ok (all_data st')
      \<and> list_all schema_ok (map snd (individual_results st'))
      \<and> (all_data st' \<noteq> [] \<longrightarrow>
            (\<exists>t. final_df sess' = Some t \<and> schema_ok t
                \<and> saved_results sess' = Some (individual_results st'))))"
proof (intro conjI impI)
  assume "handle_payload data results_df = Inr results'"
  then show "results' = results_df
    \<or> (\<exists>p ds. py_getitem data ''products'' = Inr p \<and> normalized_dicts p = Inr ds
          \<and> results' = results_df @
               [\<lparr>columns = COLUMNS_OF_INTEREST,
                 rows = map (\<lambda>d. map (\<lambda>c. case map_of d c of
                                            Some v \<Rightarrow> Val v
                                          | None \<Rightarrow> if c \<in> set (concat (map (map fst) ds))
                                                    then NaN else NA)
                                  COLUMNS_OF_INTEREST) ds\<rparr>])"
    by (rule handle_payload_cases)
next
  assume m: "main R uploaded_files sess = Inr (sess', st')"
  have *: "tables_ok st'
         \<and> (all_data st' \<noteq> [] \<longrightarrow>
            (\<exists>t. final_df sess' = Some t \<and> schema_ok t
                \<and> saved_results sess' = Some (individual_results st')))"
  proof (cases "uploaded_files = []")
    case True
    then have "st' = initial_state" using m by (simp add: main_def)
    then show ?thesis using tables_ok_initial by (simp add: initial_state_def)
  next
    case False
    then obtain st where st: "process_files R uploaded_files initial_state = Inr st"
      using m by (auto simp: main_def split: sum.splits)
    have ok: "tables_ok st" using st tables_ok_initial by (rule process_files_tables_ok)
    let ?c = "\<lparr>columns = COLUMNS_OF_INTEREST, rows = concat (map rows (all_data st))\<rparr>"
    have "list_all (\<lambda>r. length r = 5) (concat (map rows (all_data st)))"
      using ok by (auto simp: tables_ok_def schema_ok_def list_all_iff)
    then have c: "schema_ok ?c" by (simp add: schema_ok_def)
    show ?thesis
      using main_cases[OF False st, of sess] m ok c
      by (auto simp: tables_ok_def warn_def split: if_splits)
  qed
  then show "list_all schema_ok (all_data st')"
    and "list_all schema_ok (map snd (individual_results st'))"
    by (simp_all add: tables_ok_def)
  show "\<exists>t. final_df sess' = Some t \<and> schema_ok t
                \<and> saved_results sess' = Some (individual_results st')"
    if "all_data st' \<noteq> []"
    using * that by blast
qed

lemma mixed_payload_table: "handle_payload mixed_payload results_df = Inr (results_df @ [mixed_table])"
  by (simp add: eval_defs new_key_def mixed_payload_def full_entry_def bare_entry_def
        mixed_table_def)

lemma mixed_run:
  "main mixed_remote [gtin_file ''a.csv'' [''00012345678905'', ''00098765432109'']] empty_session =
     Inr (\<lparr>final_df = Some mixed_table, saved_results = Some [(''a.csv'', mixed_table)],
           usage_log = [1]\<rparr>, mixed_state)"
proof -
  let ?f = "gtin_file ''a.csv'' [''00012345678905'', ''00098765432109'']"
  have i: "identifiers ?f = Inr [''00012345678905'', ''00098765432109'']"
    by (simp add: file_defs gtin_file_def na_values_def)
  have c: "chunk_list [''00012345678905'', ''00098765432109''] 10 =
             Inr [[''00012345678905'', ''00098765432109'']]"
    by (simp add: chunk_list_def chunks_from.simps)
  have "post_with_retry mixed_remote [''00012345678905'', ''00098765432109''] 5 w =
          (Some \<lparr>status_code = 200, content = Json mixed_payload\<rparr>, posted w)" for w
    by (simp add: post_with_retry_def post_attempts.simps mixed_remote_def)
  then have b: "process_chunk mixed_remote [''00012345678905'', ''00098765432109''] [] w =
                  Inr ([mixed_table], posted w)" for w
    by (simp add: process_chunk_def handle_response_def response_ok_def response_json_def
          mixed_payload_table)
  have s: "schema_ok mixed_table" by (simp add: schema_ok_def mixed_table_def)
  have "pd_concat [mixed_table] =
          Inr \<lparr>columns = COLUMNS_OF_INTEREST, rows = concat (map rows [mixed_table])\<rparr>"
    by (intro pd_concat_schema) (simp_all add: s)
  then have p: "pd_concat [mixed_table] = Inr mixed_table" by (simp add: mixed_table_def)
  have n: "name ?f = ''a.csv''" by (simp add: gtin_file_def)
  have "process_file mixed_remote ?f initial_state =
          Inr (initial_state\<lparr>all_data := [mixed_table],
                              individual_results := [(''a.csv'', mixed_table)],
                              net := posted (net initial_state)\<rparr>)"
    unfolding process_file_def i by (simp add: c b p n initial_state_def)
  then show ?thesis
    by (simp add: main_def p mixed_state_def initial_state_def empty_session_def warn_def
          posted_def)
qed

theorem product_records_have_fixed_schema_witness:
  "handle_payload mixed_payload [] = Inr [mixed_table]
   \<and> ([mixed_table] = []
      \<or> (\<exists>p ds. py_getitem mixed_payload ''products'' = Inr p \<and> normalized_dicts p = Inr ds
            \<and> [mixed_table] = [] @
               [\<lparr>columns = COLUMNS_OF_INTEREST,
                 rows = map (\<lambda>d. map (\<lambda>c. case map_of d c of
                                            Some v \<Rightarrow> Val v
                                          | None \<Rightarrow> if c \<in> set (concat (map (map fst) ds))
                                                    then NaN else NA)
                                  COLUMNS_OF_INTEREST) ds\<rparr>]))
   \<and> main mixed_remote [gtin_file ''a.csv'' [''00012345678905'', ''00098765432109'']]
         empty_session =
       Inr (\<lparr>final_df = Some mixed_table, saved_results = Some [(''a.csv'', mixed_table)],
             usage_log = [1]\<rparr>, mixed_state)
   \<and> list_all schema_ok (all_data mixed_state)
   \<and> list_all schema_ok (map snd (individual_results mixed_state))
   \<and> all_data mixed_state \<noteq> []
   \<and> schema_ok mixed_table"
proof -
  have h: "handle_payload mixed_payload [] = Inr [mixed_table]"
    using mixed_payload_table[of "[]"] by simp
  note T = product_records_have_fixed_schema[of mixed_payload "[]" "[mixed_table]" mixed_remote
             "[gtin_file ''a.csv'' [''00012345678905'', ''00098765432109'']]" empty_session
             "\<lparr>final_df = Some mixed_table, saved_results = Some [(''a.csv'', mixed_table)],
               usage_log = [1]\<rparr>" mixed_state]
  have n: "all_data mixed_state \<noteq> []" by (simp add: mixed_state_def)
  have 1: "[mixed_table] = []
      \<or> (\<exists>p ds. py_getitem mixed_payload ''products'' = Inr p \<and> normalized_dicts p = Inr ds
            \<and> [mixed_table] = [] @
               [\<lparr>columns = COLUMNS_OF_INTEREST,
                 rows = map (\<lambda>d. map (\<lambda>c. case map_of d c of
                                            Some v \<Rightarrow> Val v
                                          | None \<Rightarrow> if c \<in> set (concat (map (map fst) ds))
                                                    then NaN else NA)
                                  COLUMNS_OF_INTEREST) ds\<rparr>])"
    using T h by blast
  have 2: "list_all schema_ok (all_data mixed_state)"
    and 3: "list_all schema_ok (map snd (individual_results mixed_state))"
    using T mixed_run by blast+
  have "\<exists>t. final_df \<lparr>final_df = Some mixed_table,
                        saved_results = Some [(''a.csv'', mixed_table)],
                        usage_log = [1]\<rparr> = Some t \<and> schema_ok t"
    using T mixed_run n by blast
  then have 4: "schema_ok mixed_table" by simp
  show ?thesis by (intro conjI h 1 mixed_run 2 3 n 4)
qed

end
